theory Spec2Isabelle
  imports Main "HOL-Library.AList"
begin

section \<open>Python string and path primitives used by the two scripts\<close>

text \<open>
  Strings are byte lists. The library calls the scripts make are written out here as the
  POSIX versions of the Python standard library define them: \<open>str.startswith\<close>,
  \<open>str.endswith\<close>, \<open>str.split\<close> with a one-character separator, \<open>str.join\<close>, \<open>str.rfind\<close>,
  \<open>os.path.splitext\<close> and \<open>os.path.join\<close>.
\<close>

definition startswith :: "string \<Rightarrow> string \<Rightarrow> bool" where
  "startswith s p = (take (length p) s = p)"

definition endswith :: "string \<Rightarrow> string \<Rightarrow> bool" where
  "endswith s p = (length p \<le> length s \<and> drop (length s - length p) s = p)"

text \<open>\<open>s.split(c)\<close>: cut at every occurrence of \<open>c\<close>, empty pieces kept; never an empty list.\<close>

fun split_on :: "char \<Rightarrow> string \<Rightarrow> string list" where
  "split_on c [] = [[]]"
| "split_on c (x # xs) =
     (if x = c then [] # split_on c xs
      else (case split_on c xs of [] \<Rightarrow> [[x]] | w # ws \<Rightarrow> (x # w) # ws))"

text \<open>\<open>sep.join(xs)\<close>.\<close>

fun join_with :: "string \<Rightarrow> string list \<Rightarrow> string" where
  "join_with sep [] = []"
| "join_with sep [x] = x"
| "join_with sep (x # y # ys) = x @ sep @ join_with sep (y # ys)"

text \<open>\<open>s.rfind(c)\<close>: the index of the last occurrence of \<open>c\<close>, or \<open>-1\<close>.\<close>

definition rfind :: "string \<Rightarrow> char \<Rightarrow> int" where
  "rfind s c =
     (if c \<in> set s then int (length s) - 1 - int (length (takeWhile (\<lambda>x. x \<noteq> c) (rev s)))
      else - 1)"

text \<open>
  \<open>os.path.splitext(p)\<close>: the extension starts at the last dot of the last path component,
  unless that component consists of leading dots only up to there.
\<close>

definition splitext :: "string \<Rightarrow> string \<times> string" where
  "splitext p =
     (let sepIndex = rfind p CHR ''/'';
          dotIndex = rfind p CHR ''.''
      in if dotIndex > sepIndex \<and>
            list_ex (\<lambda>c. c \<noteq> CHR ''.'')
              (take (nat (dotIndex - (sepIndex + 1))) (drop (nat (sepIndex + 1)) p))
         then (take (nat dotIndex) p, drop (nat dotIndex) p)
         else (p, []))"

text \<open>\<open>os.path.join(a, *p)\<close>: one step of its loop, then the loop.\<close>

definition join_step :: "string \<Rightarrow> string \<Rightarrow> string" where
  "join_step path b =
     (if startswith b ''/'' then b
      else if path = [] \<or> endswith path ''/'' then path @ b
      else path @ ''/'' @ b)"

definition os_path_join :: "string \<Rightarrow> string list \<Rightarrow> string" where
  "os_path_join a p = foldl join_step a p"

text \<open>\<open>xs[:-k]\<close> for \<open>k \<ge> 0\<close>: Python reads \<open>xs[:-0]\<close> as \<open>xs[:0]\<close>.\<close>

definition drop_last :: "'a list \<Rightarrow> nat \<Rightarrow> 'a list" where
  "drop_last xs k = (if k = 0 then [] else take (length xs - k) xs)"

section \<open>script.py: KnowledgeGraphGenerator\<close>

subsection \<open>get_node_id\<close>

definition get_node_id :: "string \<Rightarrow> string \<Rightarrow> string" where
  "get_node_id relative_dir filename =
     (if relative_dir \<noteq> [] then relative_dir @ ''/'' @ filename else filename)"

subsection \<open>normalize_path\<close>

definition rejected_prefixes :: "string list" where
  "rejected_prefixes = [''http://'', ''https://'', ''mailto:'', ''#'', ''javascript:'']"

text \<open>
  The loop \<open>while parts and parts[0] == '..': up_count += 1; parts.pop(0)\<close>, returning
  the final \<open>(up_count, parts)\<close>.
\<close>

fun pop_ups :: "nat \<Rightarrow> string list \<Rightarrow> nat \<times> string list" where
  "pop_ups up_count [] = (up_count, [])"
| "pop_ups up_count (p # ps) =
     (if p = ''..'' then pop_ups (Suc up_count) ps else (up_count, p # ps))"

text \<open>
  \<open>None\<close> is Python's \<open>None\<close> (not resolvable). On a string href no statement of the
  \<open>try\<close> block raises, so the \<open>except\<close> branch has no counterpart here.
\<close>

definition normalize_path :: "string \<Rightarrow> string \<Rightarrow> string option" where
  "normalize_path current_dir href0 =
     (if list_ex (startswith href0) rejected_prefixes then None
      else
        let href1 = hd (split_on CHR ''#'' href0);
            href = fst (splitext href1)
        in if startswith href ''../'' then
             (let (up_count, parts) = pop_ups 0 (split_on CHR ''/'' href);
                  current_parts = split_on CHR ''/'' current_dir
              in if length current_parts \<ge> up_count
                 then Some (join_with ''/'' (drop_last current_parts up_count @ parts))
                 else None)
           else if startswith href ''./'' then Some (os_path_join current_dir [drop 2 href])
           else Some (os_path_join current_dir [href]))"

subsection \<open>extract_links_from_html\<close>

text \<open>
  An anchor is the pair of the \<open>href\<close> attribute and the stripped visible text of one
  \<open>a\<close> element, as the HTML parser hands them over. A file on disk is missing, or present
  but failing to open, decode or parse (the \<open>except\<close> branch: no links), or present with
  its anchors in document order.
\<close>

type_synonym anchor = "string \<times> string"

datatype html_file = Missing | Unreadable | Anchors "anchor list"

text \<open>
  The loop over the anchors. \<open>if normalized_path:\<close> drops \<open>None\<close> and the empty string;
  \<open>link_text or ""\<close> is \<open>link_text\<close> itself on a string.
\<close>

fun collect_links :: "string \<Rightarrow> anchor list \<Rightarrow> (string \<times> string) list" where
  "collect_links current_dir [] = []"
| "collect_links current_dir ((href, link_text) # rest) =
     (case normalize_path current_dir href of
        None \<Rightarrow> collect_links current_dir rest
      | Some normalized_path \<Rightarrow>
          if normalized_path \<noteq> [] then (normalized_path, link_text) # collect_links current_dir rest
          else collect_links current_dir rest)"

definition extract_links_from_html ::
  "(string \<Rightarrow> html_file) \<Rightarrow> string \<Rightarrow> string \<Rightarrow> (string \<times> string) list" where
  "extract_links_from_html fs file_path current_dir =
     (case fs file_path of
        Anchors as \<Rightarrow> collect_links current_dir as
      | _ \<Rightarrow> [])"

subsection \<open>The graph store\<close>

text \<open>
  \<open>networkx.DiGraph\<close>, as far as the script uses it. Nodes are kept in insertion order.
  The edge store is keyed by the ordered pair \<open>(u, v)\<close> and holds the edge's
  \<open>relationship\<close> attribute (every edge the script adds has one); a pair that is already
  present keeps its place and gets the new attribute. \<open>add_edge\<close> registers an endpoint
  that is not yet a node.
\<close>

record digraph =
  node_list :: "string list"
  edge_list :: "((string \<times> string) \<times> string) list"

definition empty_graph :: digraph where
  "empty_graph = \<lparr>node_list = [], edge_list = []\<rparr>"

definition add_node :: "digraph \<Rightarrow> string \<Rightarrow> digraph" where
  "add_node g n = (if n \<in> set (node_list g) then g else g\<lparr>node_list := node_list g @ [n]\<rparr>)"

definition add_edge :: "digraph \<Rightarrow> string \<Rightarrow> string \<Rightarrow> string \<Rightarrow> digraph" where
  "add_edge g u v relationship =
     (let g' = add_node (add_node g u) v
      in g'\<lparr>edge_list := AList.update (u, v) relationship (edge_list g')\<rparr>)"

text \<open>
  \<open>graph.edges(data=True)\<close>: for every node in node order, its out-edges in the order
  their targets were first linked.
\<close>

definition edges_view :: "digraph \<Rightarrow> (string \<times> string \<times> string) list" where
  "edges_view g =
     concat (map (\<lambda>n. map (\<lambda>e. (fst (fst e), snd (fst e), snd e))
                           (filter (\<lambda>e. fst (fst e) = n) (edge_list g)))
                 (node_list g))"

subsection \<open>The generator and its three passes\<close>

text \<open>
  \<open>nodes_info\<close> is a \<open>dict\<close>: an association list in insertion order in which assigning
  to a present key replaces the value in place. Its values are the pair
  \<open>(relative_dir, filename)\<close>.
\<close>

record generator =
  graph :: digraph
  nodes_info :: "(string \<times> (string \<times> string)) list"

definition init :: generator where
  "init = \<lparr>graph = empty_graph, nodes_info = []\<rparr>"

text \<open>
  A row of the tabular export as \<open>csv.DictReader\<close> yields it, both columns present;
  \<open>add_metadata_to_graph\<close> reads the two columns \<open>relative_dir\<close> and \<open>filename\<close> only.
\<close>

type_synonym csv_row = "string \<times> string"

definition add_metadata_row :: "generator \<Rightarrow> csv_row \<Rightarrow> generator" where
  "add_metadata_row st row =
     (let node_id = get_node_id (fst row) (snd row)
      in \<lparr>graph = add_node (graph st) node_id,
          nodes_info = AList.update node_id (fst row, snd row) (nodes_info st)\<rparr>)"

definition add_metadata_to_graph :: "generator \<Rightarrow> csv_row list \<Rightarrow> generator" where
  "add_metadata_to_graph st rows = foldl add_metadata_row st rows"

definition path_exists :: "(string \<Rightarrow> html_file) \<Rightarrow> string \<Rightarrow> bool" where
  "path_exists fs p = (fs p \<noteq> Missing)"

text \<open>The body of \<open>for target_path, link_text in links\<close>.\<close>

definition add_link ::
  "(string \<times> (string \<times> string)) list \<Rightarrow> string \<Rightarrow> digraph \<Rightarrow> string \<times> string \<Rightarrow> digraph" where
  "add_link info node_id g link =
     (if fst link \<in> set (map fst info) then add_edge g node_id (fst link) (snd link) else g)"

text \<open>The links \<open>add_links_to_graph\<close> extracts for one entry of \<open>nodes_info\<close>.\<close>

definition page_links ::
  "(string \<Rightarrow> html_file) \<Rightarrow> string \<Rightarrow> string \<times> string \<Rightarrow> (string \<times> string) list" where
  "page_links fs root_dir info =
     (let html_path = os_path_join root_dir [fst info, snd info @ ''.html''];
          htm_path = os_path_join root_dir [fst info, snd info @ ''.htm''];
          file_path = (if path_exists fs html_path then html_path else htm_path);
          current_dir = (if fst info \<noteq> [] then fst info else [])
      in if path_exists fs file_path then extract_links_from_html fs file_path current_dir
         else [])"

text \<open>The body of \<open>for node_id, info in self.nodes_info.items()\<close>.\<close>

definition add_page_links ::
  "(string \<Rightarrow> html_file) \<Rightarrow> string \<Rightarrow> (string \<times> (string \<times> string)) list \<Rightarrow>
   digraph \<Rightarrow> string \<times> (string \<times> string) \<Rightarrow> digraph" where
  "add_page_links fs root_dir info g entry =
     foldl (add_link info (fst entry)) g (page_links fs root_dir (snd entry))"

definition add_links_to_graph :: "generator \<Rightarrow> string \<Rightarrow> (string \<Rightarrow> html_file) \<Rightarrow> generator" where
  "add_links_to_graph st root_dir fs =
     st\<lparr>graph := foldl (add_page_links fs root_dir (nodes_info st)) (graph st) (nodes_info st)\<rparr>"

text \<open>
  \<open>export_graph\<close>: the \<open>graph_data\<close> dictionary handed to \<open>json.dump\<close>, as the list of
  node ids and the list of \<open>(source, target, relationship)\<close> triples.
\<close>

definition export_graph :: "generator \<Rightarrow> string list \<times> (string \<times> string \<times> string) list" where
  "export_graph st = (node_list (graph st), edges_view (graph st))"

definition build_knowledge_graph ::
  "string \<Rightarrow> csv_row list \<Rightarrow> (string \<Rightarrow> html_file) \<Rightarrow> string list \<times> (string \<times> string \<times> string) list" where
  "build_knowledge_graph root_dir rows fs =
     export_graph (add_links_to_graph (add_metadata_to_graph init rows) root_dir fs)"

text \<open>Any sequence of the two mutating passes.\<close>

datatype operation =
    Add_metadata "csv_row list"
  | Add_links string "string \<Rightarrow> html_file"

fun apply_operation :: "generator \<Rightarrow> operation \<Rightarrow> generator" where
  "apply_operation st (Add_metadata rows) = add_metadata_to_graph st rows"
| "apply_operation st (Add_links root_dir fs) = add_links_to_graph st root_dir fs"

definition run :: "operation list \<Rightarrow> generator" where
  "run ops = foldl apply_operation init ops"

section \<open>main.py: the metadata scanner\<close>

subsection \<open>get_relative_path\<close>

text \<open>
  \<open>Path(p).resolve()\<close> asks the file system (working directory, symbolic links), so it is
  a parameter: \<open>resolve p\<close> is either the list of components of the absolute path \<open>p\<close>
  resolves to, below the file system's root, or the error it raises (\<open>RuntimeError\<close> on a
  loop of symbolic links). Both calls stand before the \<open>try\<close>, so their errors leave
  \<open>get_relative_path\<close>. \<open>relative_to\<close> raises \<open>ValueError\<close> unless the other path's
  components are a prefix, and \<open>ValueError\<close> is the one error the \<open>except\<close> clause catches;
  \<open>str\<close> of a relative path joins its components with \<open>/\<close> and prints the empty path as
  a dot; \<open>parent\<close> drops the last component.
\<close>

datatype py_error = ValueError | RuntimeError | OSError

definition relative_to :: "string list \<Rightarrow> string list \<Rightarrow> py_error + string list" where
  "relative_to file root =
     (if take (length root) file = root then Inr (drop (length root) file) else Inl ValueError)"

definition path_str :: "string list \<Rightarrow> string" where
  "path_str parts = (if parts = [] then ''.'' else join_with ''/'' parts)"

definition get_relative_path ::
  "(string \<Rightarrow> py_error + string list) \<Rightarrow> string \<Rightarrow> string \<Rightarrow> py_error + string" where
  "get_relative_path resolve root_dir file_path =
     (case resolve root_dir of
        Inl e \<Rightarrow> Inl e
      | Inr root \<Rightarrow>
          (case resolve file_path of
             Inl e \<Rightarrow> Inl e
           | Inr file \<Rightarrow>
               (case relative_to file root of
                  Inr relative \<Rightarrow>
                    Inr (if length relative = 1 then [] else path_str (butlast relative))
                | Inl e \<Rightarrow> if e = ValueError then Inr [] else Inl e)))"

subsection \<open>get_metadata_from_html\<close>

text \<open>
  A parsed document: its \<open>meta\<close> elements in document order, each with its \<open>name\<close> and
  \<open>content\<close> attributes when present, and for the first \<open>title\<close> element, when there is
  one, its \<open>.string\<close> (which may be \<open>None\<close>). Reading and parsing the file is the parameter
  \<open>read_html\<close>; \<open>None\<close> stands for any failure, which the function turns into the
  all-empty metadata. \<open>str.lower\<close> follows the Unicode case mapping, which a function on
  bytes does not give, so it is the parameter \<open>lower\<close>.
\<close>

text \<open>The field \<open>keywords\<close> is written \<open>meta_keywords\<close>: the plain name is reserved.\<close>

record metadata =
  meta_keywords :: string
  description :: string
  module :: string
  title :: string

record html_doc =
  metas :: "(string option \<times> string option) list"
  title_tag :: "string option option"

definition empty_metadata :: metadata where
  "empty_metadata = \<lparr>meta_keywords = [], description = [], module = [], title = []\<rparr>"

definition attr_or_empty :: "string option \<Rightarrow> string" where
  "attr_or_empty a = (case a of None \<Rightarrow> [] | Some v \<Rightarrow> v)"

definition meta_step ::
  "(string \<Rightarrow> string) \<Rightarrow> metadata \<Rightarrow> string option \<times> string option \<Rightarrow> metadata" where
  "meta_step lower m meta =
     (let name = lower (attr_or_empty (fst meta));
          content = attr_or_empty (snd meta)
      in if name = ''keywords'' then m\<lparr>meta_keywords := content\<rparr>
         else if name = ''description'' then m\<lparr>description := content\<rparr>
         else if name = ''module'' then m\<lparr>module := content\<rparr>
         else m)"

definition get_metadata_from_html ::
  "(string \<Rightarrow> string) \<Rightarrow> (string \<Rightarrow> html_doc option) \<Rightarrow> string \<Rightarrow> metadata" where
  "get_metadata_from_html lower read_html file_path =
     (case read_html file_path of
        None \<Rightarrow> empty_metadata
      | Some doc \<Rightarrow>
          let m = foldl (meta_step lower) empty_metadata (metas doc)
          in (case title_tag doc of
                None \<Rightarrow> m
              | Some s \<Rightarrow> m\<lparr>title := attr_or_empty s\<rparr>))"

subsection \<open>scan_directory\<close>

record page_record = metadata +
  relative_dir :: string
  filename :: string


text \<open>
  The body of the inner loop, for one file \<open>file\<close> of the directory \<open>root\<close>: an error of
  \<open>get_relative_path\<close> leaves the loop, and the whole scan with it.
\<close>

definition scan_file ::
  "(string \<Rightarrow> py_error + string list) \<Rightarrow> (string \<Rightarrow> string) \<Rightarrow> (string \<Rightarrow> html_doc option) \<Rightarrow>
   string \<Rightarrow> string \<Rightarrow> string \<Rightarrow> py_error + page_record" where
  "scan_file resolve lower read_html root_dir root file =
     (let full_path = os_path_join root [file]
      in case get_relative_path resolve root_dir full_path of
           Inl e \<Rightarrow> Inl e
         | Inr rel_dir \<Rightarrow>
             let fname = fst (splitext file);
                 m = get_metadata_from_html lower read_html full_path
             in Inr \<lparr>meta_keywords = meta_keywords m, description = description m,
                     module = module m, title = title m,
                     relative_dir = rel_dir, filename = fname\<rparr>)"












section \<open>Invariants of the generator\<close>

text \<open>
  A graph is in order for a set of known identifiers when its nodes are exactly those
  identifiers, each once, no ordered pair is stored twice, and both endpoints of every
  stored edge are known. The generator is well formed when the keys of \<open>nodes_info\<close> are
  distinct and its graph is in order for them.
\<close>

definition graph_ok :: "string set \<Rightarrow> digraph \<Rightarrow> bool" where
  "graph_ok K g \<longleftrightarrow>
     set (node_list g) = K \<and> distinct (node_list g) \<and> distinct (map fst (edge_list g)) \<and>
     (\<forall>e \<in> set (edge_list g). fst (fst e) \<in> K \<and> snd (fst e) \<in> K)"

definition well_formed :: "generator \<Rightarrow> bool" where
  "well_formed st \<longleftrightarrow>
     distinct (map fst (nodes_info st)) \<and> graph_ok (fst ` set (nodes_info st)) (graph st)"


section \<open>A small site, for concrete runs\<close>

text \<open>
  The site of the end-to-end scenario: \<open>index.html\<close> in the root links twice to
  \<open>sub/child\<close> (the second time with other text), once to a page that does not exist and
  once to an external address; \<open>sub/child.htm\<close> links back to the index.
\<close>

definition example_rows :: "csv_row list" where
  "example_rows = [([], ''index''), (''sub'', ''child'')]"

definition example_site :: "string \<Rightarrow> html_file" where
  "example_site p =
     (if p = ''site/index.html''
      then Anchors [(''sub/child.html'', ''Go''), (''sub/child.html#intro'', ''Again''),
                    (''missing-page.html'', ''Lost''), (''https://example.com'', ''Ext'')]
      else if p = ''site/sub/child.htm'' then Anchors [(''../index.html'', ''Back'')]
      else Missing)"

definition example_ops :: "operation list" where
  "example_ops = [Add_metadata example_rows, Add_links ''site'' example_site]"

text \<open>
  A file system for the scanner. Absolute paths without links resolve to their
  components (\<open>plain_resolve\<close>); \<open>/site/sub/link.html\<close> is a symbolic link to a file outside the scanned
  root, \<open>/site/alias.html\<close> one to the page \<open>/site/a/b/page.html\<close>, and
  \<open>/site/loop.html\<close> a link to itself. Lower case is taken letter by letter on ASCII
  text.
\<close>

definition plain_resolve :: "string \<Rightarrow> py_error + string list" where
  "plain_resolve p = Inr (filter (\<lambda>s. s \<noteq> []) (split_on CHR ''/'' p))"

definition example_resolve :: "string \<Rightarrow> py_error + string list" where
  "example_resolve p =
     (if p = ''/site/sub/link.html'' then Inr [''srv'', ''shared'', ''link.html'']
      else if p = ''/site/alias.html'' then Inr [''site'', ''a'', ''b'', ''page.html'']
      else if p = ''/site/loop.html'' then Inl RuntimeError
      else plain_resolve p)"

definition ascii_lower :: "char \<Rightarrow> char" where
  "ascii_lower c =
     (if 65 \<le> (of_char c :: nat) \<and> (of_char c :: nat) \<le> 90 then char_of ((of_char c :: nat) + 32) else c)"

definition example_lower :: "string \<Rightarrow> string" where
  "example_lower s = map ascii_lower s"

definition example_read_html :: "string \<Rightarrow> html_doc option" where
  "example_read_html p =
     (if p = ''/site/index.html''
      then Some \<lparr>metas = [(Some ''Keywords'', Some ''docs;home''), (Some ''viewport'', None)],
                 title_tag = Some (Some ''Home'')\<rparr>
      else None)"


section \<open>Facts about the string primitives\<close>

lemmas path_defs = normalize_path_def rejected_prefixes_def startswith_def endswith_def
  splitext_def rfind_def drop_last_def

lemma split_on_not_Nil: "split_on c s \<noteq> []"
  by (induction s) (auto split: list.splits)

lemma split_on_segment:
  "c \<notin> set w \<Longrightarrow> split_on c (w @ c # r) = w # split_on c r"
  by (induction w) (auto split: list.splits)

lemma split_on_ups:
  "split_on CHR ''/'' (concat (replicate k ''../'') @ r) = replicate k ''..'' @ split_on CHR ''/'' r"
proof (induction k)
  case 0
  then show ?case by simp
next
  case (Suc k)
  have "split_on CHR ''/'' (''..'' @ CHR ''/'' # (concat (replicate k ''../'') @ r)) =
        ''..'' # split_on CHR ''/'' (concat (replicate k ''../'') @ r)"
    by (rule split_on_segment) simp
  with Suc show ?case by simp
qed

lemma pop_ups_replicate:
  "pop_ups n (replicate k ''..'' @ ps) = pop_ups (n + k) ps"
  by (induction k arbitrary: n) simp_all

lemma pop_ups_stop: "ps = [] \<or> hd ps \<noteq> ''..'' \<Longrightarrow> pop_ups n ps = (n, ps)"
  by (cases ps) auto

lemma hd_split_on: "hd (split_on c s) = takeWhile (\<lambda>x. x \<noteq> c) s"
  by (induction s) (auto split: list.splits simp: split_on_not_Nil)

lemma takeWhile_before_fragment:
  "c \<notin> set h \<Longrightarrow> takeWhile (\<lambda>x. x \<noteq> c) (h @ c # frag) = h"
  by (induction h) auto

lemma takeWhile_no_fragment:
  "c \<notin> set h \<Longrightarrow> takeWhile (\<lambda>x. x \<noteq> c) h = h"
  by (induction h) auto

lemma startswith_before_fragment:
  assumes "CHR ''#'' \<notin> set p" and "CHR ''#'' \<notin> set h"
  shows "startswith (h @ CHR ''#'' # frag) p = startswith h p"
proof (cases "length p \<le> length h")
  case True
  then show ?thesis by (simp add: startswith_def)
next
  case False
  then have "take (length p) h = h" by simp
  moreover from False have "h \<noteq> p" by auto
  moreover have "take (length p) (h @ CHR ''#'' # frag) \<noteq> p"
  proof
    assume eq: "take (length p) (h @ CHR ''#'' # frag) = p"
    from False have "CHR ''#'' \<in> set (take (length p) (h @ CHR ''#'' # frag))"
      by (cases "length p - length h") auto
    with eq assms(1) show False by simp
  qed
  ultimately show ?thesis by (simp add: startswith_def)
qed

lemma rejected_before_fragment:
  assumes "h \<noteq> []" and "CHR ''#'' \<notin> set h"
  shows "list_ex (startswith (h @ CHR ''#'' # frag)) rejected_prefixes =
         list_ex (startswith h) rejected_prefixes"
proof -
  have hash: "startswith (h @ CHR ''#'' # frag) ''#'' = startswith h ''#''"
    using assms by (cases h) (auto simp: startswith_def)
  show ?thesis
    using assms(2) by (simp add: rejected_prefixes_def hash startswith_before_fragment)
qed

lemma startswith_iff: "startswith s p \<longleftrightarrow> (\<exists>r. s = p @ r)"
proof
  assume "startswith s p"
  then have "s = p @ drop (length p) s"
    by (metis append_take_drop_id startswith_def)
  then show "\<exists>r. s = p @ r" ..
next
  assume "\<exists>r. s = p @ r"
  then show "startswith s p" by (auto simp: startswith_def)
qed

lemma rejected_iff:
  "list_ex (startswith href) rejected_prefixes \<longleftrightarrow>
   (\<exists>rest. href = ''http://'' @ rest \<or> href = ''https://'' @ rest \<or> href = ''mailto:'' @ rest \<or>
           href = ''#'' @ rest \<or> href = ''javascript:'' @ rest)"
  by (simp only: rejected_prefixes_def list_ex_Nil_iff list_ex_Cons_iff startswith_iff ex_disj_distrib simp_thms)


lemma pop_ups_eq:
  "pop_ups n ps = (n + length (takeWhile (\<lambda>p. p = ''..'') ps), dropWhile (\<lambda>p. p = ''..'') ps)"
  by (induction ps arbitrary: n) simp_all

lemma split_on_ascent: "split_on CHR ''/'' (''../'' @ r) = ''..'' # split_on CHR ''/'' r"
  using split_on_segment [of "CHR ''/''" "''..''" r] by simp

lemma rfind_last:
  "c \<notin> set ys \<Longrightarrow> rfind (xs @ c # ys) c = int (length xs)"
proof -
  assume "c \<notin> set ys"
  then have "takeWhile (\<lambda>x. x \<noteq> c) (rev ys @ c # rev xs) = rev ys"
    by (induction ys rule: rev_induct) auto
  then show ?thesis by (simp add: rfind_def)
qed

lemma rfind_absent: "c \<notin> set s \<Longrightarrow> rfind s c = - 1"
  by (simp add: rfind_def)

lemma splitext_extension:
  assumes "CHR ''.'' \<notin> set ext" and "CHR ''/'' \<notin> set ext" and "CHR ''/'' \<notin> set base"
    and "\<exists>c \<in> set base. c \<noteq> CHR ''.''" and "d = [] \<or> last d = CHR ''/''"
  shows "splitext (d @ base @ CHR ''.'' # ext) = (d @ base, CHR ''.'' # ext)"
proof -
  let ?p = "d @ base @ CHR ''.'' # ext"
  have dot: "rfind ?p CHR ''.'' = int (length d + length base)"
    using rfind_last [OF assms(1), of "d @ base"] by simp
  have sep: "rfind ?p CHR ''/'' = int (length d) - 1"
  proof (cases "d = []")
    case True
    with assms(2,3) show ?thesis by (simp add: rfind_absent)
  next
    case False
    with assms(5) obtain d' where d: "d = d' @ [CHR ''/'']"
      by (metis append_butlast_last_id)
    have "CHR ''/'' \<notin> set (base @ CHR ''.'' # ext)"
      using assms(2,3) by simp
    from rfind_last [OF this, of d'] d show ?thesis by simp
  qed
  have seg: "take (length base) (drop (length d) ?p) = base" by simp
  show ?thesis
    using assms(4) by (simp add: splitext_def dot sep seg list_ex_iff Let_def)
qed

section \<open>Link Normalizer: ascent\<close>

text \<open>
  What the code does on an href that, once its fragment and extension are gone, consists of
  \<open>k \<ge> 1\<close> ascents \<open>../\<close> followed by a remainder that does not start with a further
  \<open>..\<close> segment: the segments of \<open>current_dir\<close> are those of \<open>current_dir.split('/')\<close>;
  with at least \<open>k\<close> of them the result is the join of all but the last \<open>k\<close> with the
  segments of the remainder, with fewer the href is not resolvable.
\<close>

lemma normalize_path_ascent:
  assumes "\<not> list_ex (startswith href) rejected_prefixes"
    and "fst (splitext (hd (split_on CHR ''#'' href))) = concat (replicate k ''../'') @ rest"
    and "0 < k"
    and "hd (split_on CHR ''/'' rest) \<noteq> ''..''"
  shows "normalize_path current_dir href =
    (if k \<le> length (split_on CHR ''/'' current_dir)
     then Some (join_with ''/''
            (take (length (split_on CHR ''/'' current_dir) - k) (split_on CHR ''/'' current_dir) @
             split_on CHR ''/'' rest))
     else None)"
proof -
  from \<open>0 < k\<close> obtain j where k: "k = Suc j" by (cases k) auto
  have start: "startswith (concat (replicate k ''../'') @ rest) ''../''"
    by (simp add: k startswith_def)
  have pop: "pop_ups 0 (split_on CHR ''/'' (concat (replicate k ''../'') @ rest)) =
             (k, split_on CHR ''/'' rest)"
    using assms(4) by (simp add: split_on_ups pop_ups_replicate pop_ups_stop)
  show ?thesis
    using assms(1,3) by (simp add: normalize_path_def assms(2) start pop drop_last_def Let_def)
qed

lemma normalize_path_ascent_examples:
  "normalize_path ''a/b'' ''../c'' = Some ''a/c'' \<and>
   normalize_path ''a/b'' ''../../c'' = Some ''c'' \<and>
   normalize_path ''a/b'' ''../../../c'' = None"
  by (simp add: path_defs)

text \<open>
  C1. The claim takes the empty \<open>current_dir\<close> to have zero segments, so that every href
  starting with \<open>../\<close> is unresolvable from a root-level page. The code counts the segments
  of \<open>"".split('/')\<close>, which is the one-element list holding the empty string: from the
  empty \<open>current_dir\<close> the href \<open>../c\<close> resolves to the root-level identifier \<open>c\<close>, and
  only two or more ascents are unresolvable.
\<close>

theorem normalize_path_ascent_from_root:
  "split_on CHR ''/'' [] = [[]] \<and>
   normalize_path [] ''../c'' = Some ''c'' \<and>
   normalize_path [] ''../../c'' = None"
  by (simp add: path_defs)

section \<open>Link Normalizer: fragment and extension\<close>

text \<open>
  C2, as the code has it. For every \<open>current_dir\<close> the hrefs \<open>page.html#top\<close> and
  \<open>page.html\<close> resolve to the same identifier, \<open>current_dir\<close> joined with \<open>page\<close> (that is
  \<open>current_dir/page\<close>, or \<open>page\<close> alone from the root). The fragment goes first: an href
  \<open>h#frag\<close> with non-empty \<open>h\<close> resolves as \<open>h\<close> does. Then one extension goes, whatever
  the form of the href: every href that is not rejected resolves from its stem, the first
  component of \<open>os.path.splitext\<close> of the text before the first \<open>#\<close>. A stem that starts
  with \<open>../\<close> ascends by its leading \<open>..\<close> segments, a stem that starts with \<open>./\<close> is
  joined to \<open>current_dir\<close> without these two characters, any other stem is joined as it
  is. The extension that \<open>splitext\<close> takes off is the last one of the last path component:
  where that component has a character other than a dot before its last dot, the stem
  ends just before that dot.
\<close>

theorem normalize_path_strips_fragment_then_extension:
  "normalize_path current_dir ''page.html#top'' = Some (os_path_join current_dir [''page'']) \<and>
   normalize_path current_dir ''page.html'' = Some (os_path_join current_dir [''page'']) \<and>
   os_path_join current_dir [''page''] =
     (if current_dir = [] \<or> endswith current_dir ''/'' then current_dir @ ''page''
      else current_dir @ ''/page'') \<and>
   (h \<noteq> [] \<and> CHR ''#'' \<notin> set h \<longrightarrow>
      normalize_path current_dir (h @ CHR ''#'' # frag) = normalize_path current_dir h) \<and>
   (\<not> (\<exists>rest. href = ''http://'' @ rest \<or> href = ''https://'' @ rest \<or> href = ''mailto:'' @ rest \<or>
              href = ''#'' @ rest \<or> href = ''javascript:'' @ rest) \<and>
    stem = fst (splitext (takeWhile (\<lambda>c. c \<noteq> CHR ''#'') href)) \<longrightarrow>
      normalize_path current_dir href =
        (if \<exists>r. stem = ''../'' @ r
         then (let segs = split_on CHR ''/'' current_dir;
                   parts = split_on CHR ''/'' stem;
                   k = length (takeWhile (\<lambda>p. p = ''..'') parts)
               in if k \<le> length segs
                  then Some (join_with ''/'' (take (length segs - k) segs @
                                              dropWhile (\<lambda>p. p = ''..'') parts))
                  else None)
         else if \<exists>r. stem = ''./'' @ r then Some (os_path_join current_dir [drop 2 stem])
         else Some (os_path_join current_dir [stem]))) \<and>
   (CHR ''.'' \<notin> set ext \<and> CHR ''/'' \<notin> set ext \<and> CHR ''/'' \<notin> set base \<and>
    (\<exists>c \<in> set base. c \<noteq> CHR ''.'') \<and> (d = [] \<or> last d = CHR ''/'') \<longrightarrow>
      splitext (d @ base @ CHR ''.'' # ext) = (d @ base, CHR ''.'' # ext))"
proof -
  have a: "normalize_path current_dir ''page.html#top'' = Some (os_path_join current_dir [''page''])"
    by (simp add: path_defs)
  have b: "normalize_path current_dir ''page.html'' = Some (os_path_join current_dir [''page''])"
    by (simp add: path_defs)
  have c: "os_path_join current_dir [''page''] =
     (if current_dir = [] \<or> endswith current_dir ''/'' then current_dir @ ''page''
      else current_dir @ ''/page'')"
    by (simp add: os_path_join_def join_step_def startswith_def)
  have d: "normalize_path current_dir (h @ CHR ''#'' # frag) = normalize_path current_dir h"
    if "h \<noteq> []" "CHR ''#'' \<notin> set h"
    using that
    by (simp add: normalize_path_def rejected_before_fragment hd_split_on
        takeWhile_before_fragment takeWhile_no_fragment)
  have e: "normalize_path current_dir href =
        (if \<exists>r. stem = ''../'' @ r
         then (let segs = split_on CHR ''/'' current_dir;
                   parts = split_on CHR ''/'' stem;
                   k = length (takeWhile (\<lambda>p. p = ''..'') parts)
               in if k \<le> length segs
                  then Some (join_with ''/'' (take (length segs - k) segs @
                                              dropWhile (\<lambda>p. p = ''..'') parts))
                  else None)
         else if \<exists>r. stem = ''./'' @ r then Some (os_path_join current_dir [drop 2 stem])
         else Some (os_path_join current_dir [stem]))"
    if acc: "\<not> (\<exists>rest. href = ''http://'' @ rest \<or> href = ''https://'' @ rest \<or> href = ''mailto:'' @ rest \<or>
              href = ''#'' @ rest \<or> href = ''javascript:'' @ rest)"
      and stem: "stem = fst (splitext (takeWhile (\<lambda>c. c \<noteq> CHR ''#'') href))"
  proof -
    from acc have nr: "\<not> list_ex (startswith href) rejected_prefixes"
      unfolding rejected_iff .
    have st: "fst (splitext (hd (split_on CHR ''#'' href))) = stem"
      by (simp add: stem hd_split_on)
    show ?thesis
    proof (cases "\<exists>r. stem = ''../'' @ r")
      case True
      then obtain r where r: "stem = ''../'' @ r" ..
      then have up: "startswith stem ''../''" by (auto simp: startswith_iff)
      have pos: "0 < length (takeWhile (\<lambda>p. p = ''..'') (split_on CHR ''/'' stem))"
        unfolding r split_on_ascent by simp
      show ?thesis
        using True nr pos
        by (simp add: normalize_path_def st up pop_ups_eq drop_last_def Let_def del: split_on.simps)
    next
      case False
      then have up: "\<not> startswith stem ''../''" by (simp add: startswith_iff)
      show ?thesis
        using False nr by (simp add: normalize_path_def st up startswith_iff [of stem "''./''"])
    qed
  qed
  note f = splitext_extension [of ext base d]
  from a b c d e f show ?thesis by blast
qed

text \<open>An instance: the two hrefs of the claim, a fragment after a path, an ascent, a reference starting with \<open>./\<close>, and a name with two dots.\<close>

theorem normalize_path_strips_fragment_then_extension_witness:
  "normalize_path ''docs'' ''page.html#top'' = Some ''docs/page'' \<and>
   normalize_path ''docs'' ''page.html'' = Some ''docs/page'' \<and>
   normalize_path ''docs'' (''guide/intro.html'' @ CHR ''#'' # ''setup'') =
     normalize_path ''docs'' ''guide/intro.html'' \<and>
   normalize_path ''docs/api'' ''../guide/page.html#x'' = Some ''docs/guide/page'' \<and>
   normalize_path ''docs'' ''./page.html'' = Some ''docs/page'' \<and>
   normalize_path ''docs'' ''page.v2.html'' = Some ''docs/page.v2'' \<and>
   splitext (''docs/'' @ ''page.v2'' @ CHR ''.'' # ''html'') = (''docs/'' @ ''page.v2'', CHR ''.'' # ''html'')"
proof -
  note t = normalize_path_strips_fragment_then_extension
    [where h = "''guide/intro.html''" and frag = "''setup''"
       and d = "''docs/''" and base = "''page.v2''" and ext = "''html''"]
  have j: "os_path_join ''docs'' [''page''] = ''docs/page''"
    by (simp add: os_path_join_def join_step_def startswith_def endswith_def)
  have j2: "os_path_join ''docs'' [''page.v2''] = ''docs/page.v2''"
    by (simp add: os_path_join_def join_step_def startswith_def endswith_def)
  have s1: "fst (splitext (takeWhile (\<lambda>c. c \<noteq> CHR ''#'') ''../guide/page.html#x'')) = ''../guide/page''"
    by (simp add: splitext_def rfind_def)
  have s2: "fst (splitext (takeWhile (\<lambda>c. c \<noteq> CHR ''#'') ''./page.html'')) = ''./page''"
    by (simp add: splitext_def rfind_def)
  have s3: "fst (splitext (takeWhile (\<lambda>c. c \<noteq> CHR ''#'') ''page.v2.html'')) = ''page.v2''"
    by (simp add: splitext_def rfind_def)
  have a: "normalize_path ''docs'' ''page.html#top'' = Some ''docs/page'' \<and>
           normalize_path ''docs'' ''page.html'' = Some ''docs/page''"
    using t [where current_dir = "''docs''"] unfolding j by blast
  have b: "normalize_path ''docs'' (''guide/intro.html'' @ CHR ''#'' # ''setup'') =
           normalize_path ''docs'' ''guide/intro.html''"
    using t [where current_dir = "''docs''"] by simp
  have c: "normalize_path ''docs/api'' ''../guide/page.html#x'' = Some ''docs/guide/page''"
    using t [where current_dir = "''docs/api''" and href = "''../guide/page.html#x''"
               and stem = "''../guide/page''"] s1
    by simp
  have d: "normalize_path ''docs'' ''./page.html'' = Some ''docs/page''"
    using t [where current_dir = "''docs''" and href = "''./page.html''" and stem = "''./page''"] s2 j
    by simp
  have e: "normalize_path ''docs'' ''page.v2.html'' = Some ''docs/page.v2''"
    using t [where current_dir = "''docs''" and href = "''page.v2.html''" and stem = "''page.v2''"] s3 j2
    by simp
  have f: "splitext (''docs/'' @ ''page.v2'' @ CHR ''.'' # ''html'') = (''docs/'' @ ''page.v2'', CHR ''.'' # ''html'')"
    using t [where current_dir = "''docs''"] by simp
  from a b c d e f show ?thesis by blast
qed

text \<open>
  C2, the remark in parentheses. A resolved identifier can carry an extension: only the
  last one is removed, so \<open>page.v2.html\<close> resolves to \<open>docs/page.v2\<close>, from which
  \<open>os.path.splitext\<close> still splits the extension \<open>.v2\<close>. The scanner names the page the same
  way, so the link and the node agree.
\<close>

theorem normalize_path_keeps_inner_extension:
  "normalize_path ''docs'' ''page.v2.html'' = Some ''docs/page.v2'' \<and>
   splitext ''docs/page.v2'' = (''docs/page'', ''.v2'') \<and>
   fst (splitext ''page.v2.html'') = ''page.v2''"
  by (simp add: path_defs os_path_join_def join_step_def)

section \<open>Link Normalizer: rejection\<close>

lemma collect_links_append:
  "collect_links cd (xs @ ys) = collect_links cd xs @ collect_links cd ys"
  by (induction xs) (auto split: option.splits)

text \<open>
  C3. Whatever the current directory, an href that begins with \<open>http://\<close>, \<open>https://\<close>,
  \<open>mailto:\<close>, \<open>#\<close> or \<open>javascript:\<close> is not resolvable, and an anchor carrying it
  contributes nothing to the links collected from its page: the page yields the same
  links with and without that anchor, hence no node is resolved and no edge is added for it.
\<close>

theorem normalize_path_rejects_external:
  assumes "p \<in> {''http://'', ''https://'', ''mailto:'', ''#'', ''javascript:''}"
  shows "normalize_path current_dir (p @ rest) = None \<and>
         collect_links current_dir (before @ (p @ rest, link_text) # after) =
           collect_links current_dir (before @ after)"
proof -
  from assms have "list_ex (startswith (p @ rest)) rejected_prefixes"
    by (auto simp: rejected_prefixes_def startswith_def)
  then have none: "normalize_path current_dir (p @ rest) = None"
    by (simp add: normalize_path_def)
  then show ?thesis
    by (simp add: collect_links_append)
qed

text \<open>An instance for each of the five prefixes, and an in-page anchor between two other anchors of a page in \<open>a/b\<close>.\<close>

theorem normalize_path_rejects_external_witness:
  "normalize_path ''a/b'' ''http://example.com/x.html'' = None \<and>
   normalize_path ''a/b'' ''https://example.com'' = None \<and>
   normalize_path ''a/b'' ''mailto:doc@example.com'' = None \<and>
   normalize_path ''a/b'' ''#section'' = None \<and>
   normalize_path ''a/b'' ''javascript:void(0)'' = None \<and>
   collect_links ''a/b'' ([(''x.html'', ''X'')] @ (''#section'', ''S'') # [(''y.html'', ''Y'')]) =
     collect_links ''a/b'' ([(''x.html'', ''X'')] @ [(''y.html'', ''Y'')])"
proof -
  note t = normalize_path_rejects_external
    [where current_dir = "''a/b''" and before = "[(''x.html'', ''X'')]" and link_text = "''S''"
       and after = "[(''y.html'', ''Y'')]"]
  from t [where p = "''http://''" and rest = "''example.com/x.html''"]
       t [where p = "''https://''" and rest = "''example.com''"]
       t [where p = "''mailto:''" and rest = "''doc@example.com''"]
       t [where p = "''#''" and rest = "''section''"]
       t [where p = "''javascript:''" and rest = "''void(0)''"]
  show ?thesis by simp
qed

section \<open>Graph Assembler: the invariant\<close>

lemma set_node_list_add_node: "set (node_list (add_node g n)) = insert n (set (node_list g))"
  by (auto simp: add_node_def)

lemma distinct_node_list_add_node:
  "distinct (node_list g) \<Longrightarrow> distinct (node_list (add_node g n))"
  by (simp add: add_node_def)

lemma edge_list_add_node: "edge_list (add_node g n) = edge_list g"
  by (simp add: add_node_def)

lemma add_node_present: "n \<in> set (node_list g) \<Longrightarrow> add_node g n = g"
  by (simp add: add_node_def)

lemma edge_list_add_edge:
  "edge_list (add_edge g u v r) = AList.update (u, v) r (edge_list g)"
  by (simp add: add_edge_def Let_def edge_list_add_node)

lemma set_node_list_add_edge:
  "set (node_list (add_edge g u v r)) = insert u (insert v (set (node_list g)))"
  by (auto simp: add_edge_def Let_def set_node_list_add_node)

lemma distinct_node_list_add_edge:
  "distinct (node_list g) \<Longrightarrow> distinct (node_list (add_edge g u v r))"
  by (simp add: add_edge_def Let_def distinct_node_list_add_node)

lemma set_update_subset:
  "set (AList.update k v al) \<subseteq> insert (k, v) (set al)"
  by (induction al) auto

lemma graph_ok_add_edge:
  assumes "graph_ok K g" "u \<in> K" "v \<in> K"
  shows "graph_ok K (add_edge g u v r)"
proof -
  have "set (node_list (add_edge g u v r)) = K"
    using assms by (auto simp: set_node_list_add_edge graph_ok_def)
  moreover have "distinct (node_list (add_edge g u v r))"
    using assms by (simp add: distinct_node_list_add_edge graph_ok_def)
  moreover have "distinct (map fst (edge_list (add_edge g u v r)))"
    using assms by (simp add: edge_list_add_edge distinct_update graph_ok_def)
  moreover have "\<forall>e \<in> set (edge_list (add_edge g u v r)). fst (fst e) \<in> K \<and> snd (fst e) \<in> K"
    using assms set_update_subset [of "(u, v)" r "edge_list g"]
    by (auto simp: edge_list_add_edge graph_ok_def)
  ultimately show ?thesis by (simp add: graph_ok_def)
qed

lemma graph_ok_add_link:
  "graph_ok (fst ` set info) g \<Longrightarrow> s \<in> fst ` set info \<Longrightarrow>
   graph_ok (fst ` set info) (add_link info s g link)"
  by (simp add: add_link_def graph_ok_add_edge)

lemma graph_ok_add_links:
  "graph_ok (fst ` set info) g \<Longrightarrow> s \<in> fst ` set info \<Longrightarrow>
   graph_ok (fst ` set info) (foldl (add_link info s) g links)"
  by (induction links arbitrary: g) (simp_all add: graph_ok_add_link)

lemma graph_ok_add_page_links:
  "graph_ok (fst ` set info) g \<Longrightarrow> fst entry \<in> fst ` set info \<Longrightarrow>
   graph_ok (fst ` set info) (add_page_links fs root_dir info g entry)"
  by (simp add: add_page_links_def graph_ok_add_links)

lemma graph_ok_add_pages:
  "graph_ok (fst ` set info) g \<Longrightarrow> set entries \<subseteq> set info \<Longrightarrow>
   graph_ok (fst ` set info) (foldl (add_page_links fs root_dir info) g entries)"
proof (induction entries arbitrary: g)
  case Nil
  then show ?case by simp
next
  case (Cons e es)
  from Cons.prems have "fst e \<in> fst ` set info" by auto
  with Cons.prems have "graph_ok (fst ` set info) (add_page_links fs root_dir info g e)"
    by (simp add: graph_ok_add_page_links)
  with Cons show ?case by simp
qed

lemma well_formed_add_links_to_graph:
  "well_formed st \<Longrightarrow> well_formed (add_links_to_graph st root_dir fs)"
  by (simp add: well_formed_def add_links_to_graph_def graph_ok_add_pages)

lemma well_formed_add_metadata_row:
  assumes "well_formed st"
  shows "well_formed (add_metadata_row st row)"
proof -
  let ?n = "get_node_id (fst row) (snd row)"
  let ?K = "fst ` set (nodes_info st)"
  have "distinct (map fst (AList.update ?n row (nodes_info st)))"
    using assms by (simp add: well_formed_def distinct_update)
  moreover have "graph_ok (insert ?n ?K) (add_node (graph st) ?n)"
    using assms
    by (auto simp: well_formed_def graph_ok_def set_node_list_add_node
        distinct_node_list_add_node edge_list_add_node)
  ultimately show ?thesis
    by (simp add: well_formed_def add_metadata_row_def Let_def dom_update)
qed

lemma well_formed_add_metadata_to_graph:
  "well_formed st \<Longrightarrow> well_formed (add_metadata_to_graph st rows)"
  unfolding add_metadata_to_graph_def
  by (induction rows arbitrary: st) (simp_all add: well_formed_add_metadata_row)

lemma well_formed_init: "well_formed init"
  by (simp add: well_formed_def graph_ok_def init_def empty_graph_def)

lemma well_formed_apply_operation:
  "well_formed st \<Longrightarrow> well_formed (apply_operation st op)"
  by (cases op) (simp_all add: well_formed_add_metadata_to_graph well_formed_add_links_to_graph)

lemma well_formed_foldl:
  "well_formed st \<Longrightarrow> well_formed (foldl apply_operation st ops)"
  by (induction ops arbitrary: st) (simp_all add: well_formed_apply_operation)

lemma well_formed_run: "well_formed (run ops)"
  by (simp add: run_def well_formed_foldl well_formed_init)

lemma set_edges_view:
  "set (edges_view g) =
     (\<lambda>e. (fst (fst e), snd (fst e), snd e)) `
       {e \<in> set (edge_list g). fst (fst e) \<in> set (node_list g)}"
  by (auto simp: edges_view_def)

lemma add_link_unknown:
  "t \<notin> fst ` set info \<Longrightarrow> add_link info s g (t, l) = g"
  by (simp add: add_link_def)

text \<open>The concrete run on the small site.\<close>

lemma example_export:
  "export_graph (run example_ops) =
     ([''index'', ''sub/child''],
      [(''index'', ''sub/child'', ''Again''), (''sub/child'', ''index'', ''Back'')])"
  by code_simp

lemma example_nodes_info:
  "nodes_info (run example_ops) = [(''index'', ([], ''index'')), (''sub/child'', (''sub'', ''child''))]"
  by code_simp

lemma example_page_links:
  "page_links example_site ''site'' ([], ''index'') =
     [(''sub/child'', ''Go'')] @ (''sub/child'', ''Again'') # [(''missing-page'', ''Lost'')]"
  by code_simp

text \<open>
  C4. After any sequence of \<open>add_metadata_to_graph\<close> and \<open>add_links_to_graph\<close> passes on a
  fresh generator, both endpoints of every exported edge are exported nodes, and the
  exported nodes are exactly the identifiers registered in \<open>nodes_info\<close>. A link whose
  resolved target is not registered changes nothing: a page's links give the same graph
  with and without it. The passes are total functions, so nothing is raised.
\<close>

theorem edge_endpoints_registered:
  "(\<forall>(s, t, r) \<in> set (snd (export_graph (run ops))).
      s \<in> set (fst (export_graph (run ops))) \<and> t \<in> set (fst (export_graph (run ops)))) \<and>
   set (fst (export_graph (run ops))) = fst ` set (nodes_info (run ops)) \<and>
   (target \<notin> fst ` set (nodes_info (run ops)) \<longrightarrow>
      foldl (add_link (nodes_info (run ops)) node_id) g (before @ (target, link_text) # after) =
      foldl (add_link (nodes_info (run ops)) node_id) g (before @ after))"
proof -
  have wf: "well_formed (run ops)" by (rule well_formed_run)
  then have ok: "graph_ok (fst ` set (nodes_info (run ops))) (graph (run ops))"
    by (simp add: well_formed_def)
  have "\<forall>(s, t, r) \<in> set (snd (export_graph (run ops))).
      s \<in> set (fst (export_graph (run ops))) \<and> t \<in> set (fst (export_graph (run ops)))"
    using ok by (fastforce simp: export_graph_def set_edges_view graph_ok_def)
  moreover have "set (fst (export_graph (run ops))) = fst ` set (nodes_info (run ops))"
    using ok by (simp add: export_graph_def graph_ok_def)
  ultimately show ?thesis
    by (simp add: add_link_unknown)
qed

text \<open>An instance on the small site: an exported edge with both endpoints exported, and the link to the missing page, which changes nothing.\<close>

theorem edge_endpoints_registered_witness:
  "(''index'', ''sub/child'', ''Again'') \<in> set (snd (export_graph (run example_ops))) \<and>
   ''index'' \<in> set (fst (export_graph (run example_ops))) \<and>
   ''sub/child'' \<in> set (fst (export_graph (run example_ops))) \<and>
   set (fst (export_graph (run example_ops))) = fst ` set (nodes_info (run example_ops)) \<and>
   ''missing-page'' \<notin> fst ` set (nodes_info (run example_ops)) \<and>
   foldl (add_link (nodes_info (run example_ops)) ''index'') (graph (run example_ops))
     ([(''sub/child'', ''Go'')] @ (''missing-page'', ''Lost'') # []) =
   foldl (add_link (nodes_info (run example_ops)) ''index'') (graph (run example_ops))
     ([(''sub/child'', ''Go'')] @ [])"
proof -
  have e: "(''index'', ''sub/child'', ''Again'') \<in> set (snd (export_graph (run example_ops)))"
    by (simp add: example_export)
  have m: "''missing-page'' \<notin> fst ` set (nodes_info (run example_ops))"
    by (simp add: example_nodes_info)
  note t = edge_endpoints_registered
    [where ops = example_ops and target = "''missing-page''" and node_id = "''index''"
       and g = "graph (run example_ops)" and before = "[(''sub/child'', ''Go'')]"
       and link_text = "''Lost''" and after = "[]"]
  from t e have "''index'' \<in> set (fst (export_graph (run example_ops))) \<and>
                 ''sub/child'' \<in> set (fst (export_graph (run example_ops)))"
    by fastforce
  with t e m show ?thesis by blast
qed

section \<open>Graph Assembler: one edge per pair, the last label wins\<close>

lemma map_of_add_link_other:
  "u \<noteq> s \<or> v \<noteq> fst link \<Longrightarrow>
   map_of (edge_list (add_link info s g link)) (u, v) = map_of (edge_list g) (u, v)"
  by (auto simp: add_link_def edge_list_add_edge update_conv')

lemma map_of_add_links_other:
  "u \<noteq> s \<or> v \<notin> fst ` set links \<Longrightarrow>
   map_of (edge_list (foldl (add_link info s) g links)) (u, v) = map_of (edge_list g) (u, v)"
proof (induction links arbitrary: g)
  case Nil
  then show ?case by simp
next
  case (Cons l ls)
  then have "map_of (edge_list (foldl (add_link info s) (add_link info s g l) ls)) (u, v) =
             map_of (edge_list (add_link info s g l)) (u, v)"
    by auto
  also have "\<dots> = map_of (edge_list g) (u, v)"
    using Cons.prems by (intro map_of_add_link_other) auto
  finally show ?case by simp
qed

lemma map_of_add_links_last:
  assumes "t \<in> fst ` set info" and "t \<notin> fst ` set after"
  shows "map_of (edge_list (foldl (add_link info s) g (before @ (t, l) # after))) (s, t) = Some l"
proof -
  let ?g1 = "foldl (add_link info s) g before"
  have "map_of (edge_list (foldl (add_link info s) (add_link info s ?g1 (t, l)) after)) (s, t) =
        map_of (edge_list (add_link info s ?g1 (t, l))) (s, t)"
    using assms(2) by (intro map_of_add_links_other) simp
  also have "\<dots> = Some l"
    using assms(1) by (simp add: add_link_def edge_list_add_edge update_conv')
  finally show ?thesis by simp
qed

lemma map_of_add_page_links_other:
  "s \<noteq> fst entry \<Longrightarrow>
   map_of (edge_list (add_page_links fs root_dir info g entry)) (s, t) = map_of (edge_list g) (s, t)"
  by (simp add: add_page_links_def map_of_add_links_other)

lemma map_of_add_pages_other:
  "s \<notin> fst ` set entries \<Longrightarrow>
   map_of (edge_list (foldl (add_page_links fs root_dir info) g entries)) (s, t) =
   map_of (edge_list g) (s, t)"
  by (induction entries arbitrary: g) (simp_all add: map_of_add_page_links_other)

lemma distinct_keys_split:
  "distinct (map fst xs) \<Longrightarrow> (k, v) \<in> set xs \<Longrightarrow>
   \<exists>pre post. xs = pre @ (k, v) # post \<and> k \<notin> fst ` set pre \<and> k \<notin> fst ` set post"
proof -
  assume d: "distinct (map fst xs)" and m: "(k, v) \<in> set xs"
  from m obtain pre post where xs: "xs = pre @ (k, v) # post"
    by (auto simp: in_set_conv_decomp)
  with d have "k \<notin> fst ` set pre \<and> k \<notin> fst ` set post" by auto
  with xs show ?thesis by blast
qed

lemma map_of_add_links_to_graph_last:
  assumes d: "distinct (map fst (nodes_info st))"
    and e: "(s, info) \<in> set (nodes_info st)"
    and links: "page_links fs root_dir info = before @ (t, l) # after"
    and after: "t \<notin> fst ` set after"
    and known: "t \<in> fst ` set (nodes_info st)"
  shows "map_of (edge_list (graph (add_links_to_graph st root_dir fs))) (s, t) = Some l"
proof -
  from distinct_keys_split [OF d e] obtain pre post where
    split: "nodes_info st = pre @ (s, info) # post" and
    pre: "s \<notin> fst ` set pre" and post: "s \<notin> fst ` set post"
    by blast
  let ?step = "add_page_links fs root_dir (nodes_info st)"
  let ?g1 = "foldl ?step (graph st) pre"
  let ?g2 = "?step ?g1 (s, info)"
  have "map_of (edge_list (foldl ?step ?g2 post)) (s, t) = map_of (edge_list ?g2) (s, t)"
    using post by (rule map_of_add_pages_other)
  also have "\<dots> = Some l"
    using map_of_add_links_last [OF known after, of s _ before l]
    by (simp add: add_page_links_def links)
  finally have "map_of (edge_list (foldl ?step (graph st) (pre @ (s, info) # post))) (s, t) = Some l"
    by simp
  then show ?thesis
    using split by (simp add: add_links_to_graph_def)
qed

lemma filter_key_distinct:
  "distinct (map fst al) \<Longrightarrow> map_of al k = Some v \<Longrightarrow> filter (\<lambda>e. fst e = k) al = [(k, v)]"
proof (induction al)
  case Nil
  then show ?case by simp
next
  case (Cons a al)
  show ?case
  proof (cases "fst a = k")
    case True
    with Cons.prems have "a = (k, v)" by (cases a) simp
    moreover from True Cons.prems have "k \<notin> fst ` set al"
      by simp
    then have "filter (\<lambda>e. fst e = k) al = []"
      by (induction al) auto
    ultimately show ?thesis by simp
  next
    case False
    with Cons show ?thesis by simp
  qed
qed

lemma concat_single_source:
  "distinct ns \<Longrightarrow> s \<in> set ns \<Longrightarrow> concat (map (\<lambda>n. if n = s then xs else []) ns) = xs"
proof (induction ns)
  case Nil
  then show ?case by simp
next
  case (Cons n ns)
  show ?case
  proof (cases "n = s")
    case True
    with Cons.prems have "s \<notin> set ns" by simp
    then have "concat (map (\<lambda>n. if n = s then xs else []) ns) = []"
      by (induction ns) auto
    with True show ?thesis by simp
  next
    case False
    with Cons show ?thesis by simp
  qed
qed

lemma filter_edges_view:
  assumes "distinct (node_list g)" and "s \<in> set (node_list g)"
  shows "filter (\<lambda>e. fst e = s \<and> fst (snd e) = t) (edges_view g) =
         map (\<lambda>e. (fst (fst e), snd (fst e), snd e)) (filter (\<lambda>e. fst e = (s, t)) (edge_list g))"
proof -
  let ?f = "\<lambda>e. (fst (fst e), snd (fst e), snd e)"
  let ?xs = "map ?f (filter (\<lambda>e. fst e = (s, t)) (edge_list g))"
  have "filter (\<lambda>e. fst e = s \<and> fst (snd e) = t) (edges_view g) =
        concat (map (\<lambda>n. if n = s then ?xs else []) (node_list g))"
    unfolding edges_view_def filter_concat map_map
    by (rule arg_cong [where f = concat], rule map_cong)
      (auto simp: filter_map o_def prod_eq_iff intro!: filter_cong)
  also have "\<dots> = ?xs"
    using assms by (rule concat_single_source)
  finally show ?thesis .
qed

lemma distinct_concat_by_source:
  "distinct ns \<Longrightarrow> distinct ks \<Longrightarrow>
   distinct (concat (map (\<lambda>n. filter (\<lambda>k. fst k = n) ks) ns))"
  by (induction ns) auto

lemma edges_view_pairs:
  "map (\<lambda>e. (fst e, fst (snd e))) (edges_view g) =
   concat (map (\<lambda>n. filter (\<lambda>k. fst k = n) (map fst (edge_list g))) (node_list g))"
  by (simp add: edges_view_def map_concat o_def filter_map)

lemma distinct_edges_view_pairs:
  "distinct (node_list g) \<Longrightarrow> distinct (map fst (edge_list g)) \<Longrightarrow>
   distinct (map (\<lambda>e. (fst e, fst (snd e))) (edges_view g))"
  by (simp only: edges_view_pairs distinct_concat_by_source)

text \<open>
  C5. The exported graph never holds two edges with the same ordered pair of source and
  target. When the links extracted from the page of a registered node \<open>s\<close> mention a
  registered target \<open>t\<close>, the export after \<open>add_links_to_graph\<close> holds exactly one edge from
  \<open>s\<close> to \<open>t\<close>, and its relationship is the text of the last link to \<open>t\<close> on that page,
  whatever the texts of the earlier ones.
\<close>

theorem last_link_wins:
  assumes "(s, info) \<in> set (nodes_info (run ops))"
    and "page_links fs root_dir info = before @ (t, l) # after"
    and "t \<notin> fst ` set after"
    and "t \<in> fst ` set (nodes_info (run ops))"
  shows "filter (\<lambda>e. fst e = s \<and> fst (snd e) = t)
           (snd (export_graph (add_links_to_graph (run ops) root_dir fs))) = [(s, t, l)] \<and>
         distinct (map (\<lambda>e. (fst e, fst (snd e))) (snd (export_graph (run ops2))))"
proof -
  let ?st = "add_links_to_graph (run ops) root_dir fs"
  have wf0: "well_formed (run ops)" by (rule well_formed_run)
  then have wf: "well_formed ?st" by (rule well_formed_add_links_to_graph)
  have nodes: "nodes_info ?st = nodes_info (run ops)"
    by (simp add: add_links_to_graph_def)
  have look: "map_of (edge_list (graph ?st)) (s, t) = Some l"
    using wf0 assms by (intro map_of_add_links_to_graph_last) (simp_all add: well_formed_def)
  have s_node: "s \<in> set (node_list (graph ?st))"
    using wf assms(1) nodes by (force simp: well_formed_def graph_ok_def)
  have "filter (\<lambda>e. fst e = s \<and> fst (snd e) = t) (edges_view (graph ?st)) =
        map (\<lambda>e. (fst (fst e), snd (fst e), snd e)) (filter (\<lambda>e. fst e = (s, t)) (edge_list (graph ?st)))"
    using wf s_node by (intro filter_edges_view) (simp_all add: well_formed_def graph_ok_def)
  also have "filter (\<lambda>e. fst e = (s, t)) (edge_list (graph ?st)) = [((s, t), l)]"
    using wf look by (intro filter_key_distinct) (simp_all add: well_formed_def graph_ok_def)
  finally have one: "filter (\<lambda>e. fst e = s \<and> fst (snd e) = t) (snd (export_graph ?st)) = [(s, t, l)]"
    by (simp add: export_graph_def)
  have "well_formed (run ops2)" by (rule well_formed_run)
  then have "distinct (map (\<lambda>e. (fst e, fst (snd e))) (snd (export_graph (run ops2))))"
    by (simp add: export_graph_def well_formed_def graph_ok_def distinct_edges_view_pairs)
  with one show ?thesis by simp
qed

text \<open>An instance on the small site: the index links twice to \<open>sub/child\<close>, first as \<open>Go\<close>, then as \<open>Again\<close>; the one exported edge carries \<open>Again\<close>.\<close>

theorem last_link_wins_witness:
  "(''index'', ([], ''index'')) \<in> set (nodes_info (run example_ops)) \<and>
   page_links example_site ''site'' ([], ''index'') =
     [(''sub/child'', ''Go'')] @ (''sub/child'', ''Again'') # [(''missing-page'', ''Lost'')] \<and>
   ''sub/child'' \<notin> fst ` set [(''missing-page'', ''Lost'')] \<and>
   ''sub/child'' \<in> fst ` set (nodes_info (run example_ops)) \<and>
   filter (\<lambda>e. fst e = ''index'' \<and> fst (snd e) = ''sub/child'')
     (snd (export_graph (add_links_to_graph (run example_ops) ''site'' example_site))) =
     [(''index'', ''sub/child'', ''Again'')] \<and>
   distinct (map (\<lambda>e. (fst e, fst (snd e))) (snd (export_graph (run example_ops))))"
proof -
  have h1: "(''index'', ([], ''index'')) \<in> set (nodes_info (run example_ops))"
    by (simp add: example_nodes_info)
  have h3: "''sub/child'' \<notin> fst ` set [(''missing-page'', ''Lost'')]"
    by simp
  have h4: "''sub/child'' \<in> fst ` set (nodes_info (run example_ops))"
    by (simp add: example_nodes_info)
  from last_link_wins [OF h1 example_page_links h3 h4, where ?ops2.0 = example_ops]
       h1 example_page_links h3 h4
  show ?thesis by blast
qed

section \<open>Graph Assembler: node registration\<close>

lemma graph_add_metadata_to_graph:
  "graph (add_metadata_to_graph st rows) =
   foldl add_node (graph st) (map (\<lambda>row. get_node_id (fst row) (snd row)) rows)"
  unfolding add_metadata_to_graph_def
  by (induction rows arbitrary: st) (simp_all add: add_metadata_row_def Let_def)

lemma set_node_list_add_nodes:
  "set (node_list (foldl add_node g ns)) = set (node_list g) \<union> set ns"
  by (induction ns arbitrary: g) (auto simp: set_node_list_add_node)

lemma node_list_add_links_to_graph:
  "well_formed st \<Longrightarrow>
   set (node_list (graph (add_links_to_graph st root_dir fs))) = set (node_list (graph st))"
  using well_formed_add_links_to_graph [of st root_dir fs]
  by (simp add: well_formed_def graph_ok_def add_links_to_graph_def)

lemma nodes_kept_apply_operation:
  "well_formed st \<Longrightarrow> set (node_list (graph st)) \<subseteq> set (node_list (graph (apply_operation st op)))"
  by (cases op) (auto simp: graph_add_metadata_to_graph set_node_list_add_nodes node_list_add_links_to_graph)

lemma nodes_kept_foldl:
  "well_formed st \<Longrightarrow> set (node_list (graph st)) \<subseteq> set (node_list (graph (foldl apply_operation st ops)))"
proof (induction ops arbitrary: st)
  case Nil
  then show ?case by simp
next
  case (Cons op ops)
  from Cons.prems have "well_formed (apply_operation st op)"
    by (rule well_formed_apply_operation)
  then have "set (node_list (graph (apply_operation st op))) \<subseteq>
             set (node_list (graph (foldl apply_operation (apply_operation st op) ops)))"
    by (rule Cons.IH)
  with nodes_kept_apply_operation [OF Cons.prems, of op] show ?case by auto
qed

text \<open>
  C6. The Page Identifier of every row read by \<open>add_metadata_to_graph\<close> is among the nodes
  that \<open>export_graph\<close> serializes afterwards: in the pipeline of \<open>build_knowledge_graph\<close>,
  and after any further passes on any reachable generator.
\<close>

theorem exported_nodes_cover_rows:
  assumes "row \<in> set rows"
  shows "get_node_id (fst row) (snd row) \<in> set (fst (build_knowledge_graph root_dir rows fs)) \<and>
         get_node_id (fst row) (snd row) \<in>
           set (fst (export_graph (foldl apply_operation (add_metadata_to_graph (run earlier) rows) later)))"
proof -
  let ?n = "get_node_id (fst row) (snd row)"
  have in_nodes: "?n \<in> set (node_list (graph (add_metadata_to_graph st rows)))" for st
    using assms by (auto simp: graph_add_metadata_to_graph set_node_list_add_nodes)
  have wf: "well_formed (add_metadata_to_graph st rows)" if "well_formed st" for st
    using that by (rule well_formed_add_metadata_to_graph)
  have "?n \<in> set (node_list (graph (add_links_to_graph (add_metadata_to_graph init rows) root_dir fs)))"
    using in_nodes [of init] wf [OF well_formed_init]
    by (simp add: node_list_add_links_to_graph)
  moreover have "?n \<in> set (node_list (graph (foldl apply_operation (add_metadata_to_graph (run earlier) rows) later)))"
    using in_nodes [of "run earlier"] nodes_kept_foldl [OF wf [OF well_formed_run], of earlier later]
    by auto
  ultimately show ?thesis
    by (simp add: build_knowledge_graph_def export_graph_def)
qed

text \<open>An instance on the small site: the row of \<open>sub/child\<close>.\<close>

theorem exported_nodes_cover_rows_witness:
  "(''sub'', ''child'') \<in> set example_rows \<and>
   ''sub/child'' \<in> set (fst (build_knowledge_graph ''site'' example_rows example_site)) \<and>
   ''sub/child'' \<in>
     set (fst (export_graph (foldl apply_operation (add_metadata_to_graph (run []) example_rows)
                               [Add_links ''site'' example_site])))"
proof -
  have h: "(''sub'', ''child'') \<in> set example_rows"
    by (simp add: example_rows_def)
  have n: "get_node_id (fst (''sub'', ''child'')) (snd (''sub'', ''child'')) = ''sub/child''"
    by (simp add: get_node_id_def)
  from exported_nodes_cover_rows
         [OF h, where root_dir = "''site''" and fs = example_site and earlier = "[]"
            and later = "[Add_links ''site'' example_site]"]
       h
  show ?thesis
    unfolding n by blast
qed

text \<open>
  C7. Registering a node that is already present leaves the graph as it is. After
  \<open>add_metadata_to_graph\<close> on a fresh generator every identifier of the rows is a node
  exactly once; and for any sequence of rows, on any generator, a later row with the
  identifier of an earlier one can be left out without changing the node list.
\<close>

theorem node_registration_idempotent:
  "add_node (add_node g n) n = add_node g n \<and>
   distinct (node_list (graph (add_metadata_to_graph init rows))) \<and>
   set (node_list (graph (add_metadata_to_graph init rows))) =
     (\<lambda>row. get_node_id (fst row) (snd row)) ` set rows \<and>
   (get_node_id (fst r) (snd r) = get_node_id (fst r') (snd r') \<longrightarrow>
      node_list (graph (add_metadata_to_graph st (xs @ r # ys @ r' # zs))) =
      node_list (graph (add_metadata_to_graph st (xs @ r # ys @ zs))))"
proof -
  have a: "add_node (add_node g n) n = add_node g n"
    by (simp add: add_node_def)
  have "well_formed (add_metadata_to_graph init rows)"
    by (simp add: well_formed_add_metadata_to_graph well_formed_init)
  then have b: "distinct (node_list (graph (add_metadata_to_graph init rows)))"
    by (simp add: well_formed_def graph_ok_def)
  have c: "set (node_list (graph (add_metadata_to_graph init rows))) =
     (\<lambda>row. get_node_id (fst row) (snd row)) ` set rows"
    by (simp add: graph_add_metadata_to_graph set_node_list_add_nodes init_def empty_graph_def)
  have d: "node_list (graph (add_metadata_to_graph st (xs @ r # ys @ r' # zs))) =
      node_list (graph (add_metadata_to_graph st (xs @ r # ys @ zs)))"
    if eq: "get_node_id (fst r) (snd r) = get_node_id (fst r') (snd r')"
  proof -
    let ?id = "\<lambda>row. get_node_id (fst row) (snd row)"
    let ?st1 = "add_metadata_to_graph st (xs @ r # ys)"
    have mem: "?id r' \<in> set (node_list (graph ?st1))"
      using eq by (simp add: graph_add_metadata_to_graph set_node_list_add_nodes set_node_list_add_node)
    have "graph (add_metadata_to_graph st ((xs @ r # ys) @ r' # zs)) =
          foldl add_node (add_node (graph ?st1) (?id r')) (map ?id zs)"
      by (simp add: graph_add_metadata_to_graph)
    also have "add_node (graph ?st1) (?id r') = graph ?st1"
      using mem by (rule add_node_present)
    also have "foldl add_node (graph ?st1) (map ?id zs) =
               graph (add_metadata_to_graph st ((xs @ r # ys) @ zs))"
      by (simp add: graph_add_metadata_to_graph)
    finally show ?thesis by simp
  qed
  from a b c d show ?thesis by blast
qed

text \<open>An instance: the rows \<open>(a/b, c)\<close> and \<open>(a, b/c)\<close> have the same identifier \<open>a/b/c\<close>, and the second adds no node.\<close>

theorem node_registration_idempotent_witness:
  "get_node_id (fst (''a/b'', ''c'')) (snd (''a/b'', ''c'')) =
     get_node_id (fst (''a'', ''b/c'')) (snd (''a'', ''b/c'')) \<and>
   node_list (graph (add_metadata_to_graph init ([] @ (''a/b'', ''c'') # [] @ (''a'', ''b/c'') # []))) =
   node_list (graph (add_metadata_to_graph init ([] @ (''a/b'', ''c'') # [] @ [])))"
proof -
  have h: "get_node_id (fst (''a/b'', ''c'')) (snd (''a/b'', ''c'')) =
           get_node_id (fst (''a'', ''b/c'')) (snd (''a'', ''b/c''))"
    by (simp add: get_node_id_def)
  from node_registration_idempotent
         [where r = "(''a/b'', ''c'')" and r' = "(''a'', ''b/c'')" and st = init
            and xs = "[]" and ys = "[]" and zs = "[]"]
       h
  show ?thesis by blast
qed

section \<open>Metadata Scanner: the relative directory\<close>




text \<open>
  C10. When both paths resolve and the resolved file is not below the resolved root,
  \<open>relative_to\<close> raises and \<open>get_relative_path\<close> returns the empty string like for a
  root-level file, so the two get the same identifier for the same name; the records
  \<open>scan_directory\<close> builds for a file that resolves outside the root and for a root-level
  file of that name have the same identifier, the name without its extension.
\<close>

theorem outside_root_classified_root_level:
  assumes "resolve root_dir = Inr root_parts" and "resolve file_path = Inr file_parts"
    and "take (length root_parts) file_parts \<noteq> root_parts"
  shows "get_relative_path resolve root_dir file_path = Inr [] \<and>
         (resolve inside = Inr (root_parts @ [name]) \<longrightarrow>
            map_sum id (\<lambda>d. get_node_id d stem) (get_relative_path resolve root_dir file_path) =
            map_sum id (\<lambda>d. get_node_id d stem) (get_relative_path resolve root_dir inside)) \<and>
         (file_path = os_path_join root [file_name] \<and>
          resolve (os_path_join root' [file_name]) = Inr (root_parts @ [name]) \<longrightarrow>
            map_sum id (\<lambda>r. get_node_id (relative_dir r) (filename r))
              (scan_file resolve lower read_html root_dir root file_name) =
            map_sum id (\<lambda>r. get_node_id (relative_dir r) (filename r))
              (scan_file resolve lower read_html root_dir root' file_name) \<and>
            map_sum id (\<lambda>r. get_node_id (relative_dir r) (filename r))
              (scan_file resolve lower read_html root_dir root file_name) =
            Inr (fst (splitext file_name)))"
  using assms
  by (auto simp: get_relative_path_def relative_to_def scan_file_def Let_def get_node_id_def)

text \<open>An instance: the link \<open>/site/sub/link.html\<close> resolves outside \<open>/site\<close>, and its record gets the identifier \<open>link\<close> of the root-level \<open>/site/link.html\<close>.\<close>

theorem outside_root_classified_root_level_witness:
  "example_resolve ''/site'' = Inr [''site''] \<and>
   example_resolve ''/site/sub/link.html'' = Inr [''srv'', ''shared'', ''link.html''] \<and>
   take (length [''site'']) [''srv'', ''shared'', ''link.html''] \<noteq> [''site''] \<and>
   get_relative_path example_resolve ''/site'' ''/site/sub/link.html'' = Inr [] \<and>
   map_sum id (\<lambda>r. get_node_id (relative_dir r) (filename r))
     (scan_file example_resolve example_lower example_read_html ''/site'' ''/site/sub'' ''link.html'') =
   map_sum id (\<lambda>r. get_node_id (relative_dir r) (filename r))
     (scan_file example_resolve example_lower example_read_html ''/site'' ''/site'' ''link.html'') \<and>
   map_sum id (\<lambda>r. get_node_id (relative_dir r) (filename r))
     (scan_file example_resolve example_lower example_read_html ''/site'' ''/site/sub'' ''link.html'') =
   Inr ''link''"
proof -
  have h0: "example_resolve ''/site'' = Inr [''site'']"
    by (simp add: example_resolve_def plain_resolve_def)
  have h1: "example_resolve ''/site/sub/link.html'' = Inr [''srv'', ''shared'', ''link.html'']"
    by (simp add: example_resolve_def plain_resolve_def)
  have h2: "take (length [''site'']) [''srv'', ''shared'', ''link.html''] \<noteq> [''site'']"
    by simp
  have q1: "''/site/sub/link.html'' = os_path_join ''/site/sub'' [''link.html'']"
    by (simp add: os_path_join_def join_step_def startswith_def endswith_def)
  have q2: "example_resolve (os_path_join ''/site'' [''link.html'']) = Inr ([''site''] @ [''link.html''])"
    by (simp add: example_resolve_def plain_resolve_def os_path_join_def join_step_def startswith_def endswith_def)
  have sp: "fst (splitext ''link.html'') = ''link''"
    by (simp add: splitext_def rfind_def)
  note t = outside_root_classified_root_level
         [where resolve = example_resolve and root_dir = "''/site''"
            and file_path = "''/site/sub/link.html''"
            and name = "''link.html''"
            and root = "''/site/sub''" and file_name = "''link.html''" and root' = "''/site''"
            and read_html = example_read_html and lower = example_lower, OF h0 h1 h2]
  from t h0 h1 h2 q1 q2 show ?thesis
    unfolding sp by blast
qed

section \<open>Metadata Scanner: what a scan leaves behind\<close>































end
